theory Spec2Isabelle
  imports Main "HOL-Library.Word"
begin

section \<open>Conventions of the embedding\<close>

text \<open>
  The file \<open>avr_misc_util.c\<close> is written for the Atmel AVR8 platform: it includes
  \<open>avr/io.h\<close> and its header quotes code sizes measured with avr-gcc. The embedding
  follows the integer model of that compiler:
  \<^item> \<open>uint8_t\<close>, \<open>uint16_t\<close>, \<open>uint32_t\<close> are \<open>8 word\<close>, \<open>16 word\<close>, \<open>32 word\<close>;
    \<open>int8_t\<close> and \<open>int16_t\<close> results are words read with \<open>sint\<close>, so the sentinel
    \<open>-1\<close> is the word \<open>- 1\<close>;
  \<^item> \<open>int\<close> and \<open>unsigned int\<close> have 16 bits. An operand of type \<open>uint8_t\<close> is promoted
    to \<open>int\<close>, an operand of type \<open>uint16_t\<close> to \<open>unsigned int\<close>; arithmetic that
    involves a \<open>uint32_t\<close> is done in 32 bits, arithmetic between a \<open>uint16_t\<close> and a
    \<open>uint8_t\<close> in 16 unsigned bits;
  \<^item> \<open>F_CPU\<close> is supplied by the build (the header refuses to compile without it), so
    every function that uses it takes it as its first argument, a 32-bit value;
  \<^item> a function whose execution can reach undefined behaviour of C (a division by zero,
    a read outside an array, \<open>abs\<close> of the least \<open>int\<close>) returns an \<open>option\<close>, and
    \<open>None\<close> stands for that undefined behaviour.
\<close>

section \<open>Timer prescaler and tick count: \<open>calc_presc_CSbits\<close>\<close>

text \<open>
  \<open>AVR_Timers\<close> is an enum with the values 0 to 5. A C enum parameter can carry any
  integer, and the \<open>switch\<close> of the function has a \<open>default\<close> branch for that, so the
  timer identifier is modelled by its integer value.
\<close>

type_synonym AVR_Timers = int

definition AVR_TIMER0 :: AVR_Timers where "AVR_TIMER0 = 0"
definition AVR_TIMER1 :: AVR_Timers where "AVR_TIMER1 = 1"
definition AVR_TIMER2 :: AVR_Timers where "AVR_TIMER2 = 2"
definition AVR_TIMER3 :: AVR_Timers where "AVR_TIMER3 = 3"
definition AVR_TIMER4 :: AVR_Timers where "AVR_TIMER4 = 4"
definition AVR_TIMER5 :: AVR_Timers where "AVR_TIMER5 = 5"

definition prescalers :: "16 word list" where
  "prescalers = [1, 8, 64, 256, 1024, 1, 8, 32, 64, 128, 256, 1024]"

text \<open>
  The \<open>switch\<close> on \<open>timer_id\<close>. It yields \<open>(prescaler_start, prescaler_end, timer_max)\<close>,
  starting from the initial values \<open>0\<close>, \<open>5\<close>, \<open>255\<close> of the three locals, or \<open>None\<close>
  in the \<open>default\<close> branch, where the function returns \<open>-1\<close>.
\<close>

definition timer_switch :: "AVR_Timers \<Rightarrow> (8 word \<times> 8 word \<times> 16 word) option" where
  "timer_switch timer_id =
     (if timer_id = AVR_TIMER0 then Some (0, 5, 255)
      else if timer_id = AVR_TIMER1 \<or> timer_id = AVR_TIMER3
              \<or> timer_id = AVR_TIMER4 \<or> timer_id = AVR_TIMER5 then Some (0, 5, 65535)
      else if timer_id = AVR_TIMER2 then Some (5, 12, 255)
      else None)"

text \<open>
  The loop body \<open>val = (temp / prescalers[counter]) - 1\<close>, in \<open>uint32_t\<close> arithmetic:
  a quotient of 0 wraps to \<open>2^32 - 1\<close>.
\<close>

definition ticks_at :: "32 word \<Rightarrow> nat \<Rightarrow> 32 word" where
  "ticks_at temp i = temp div ucast (prescalers ! i) - 1"

text \<open>
  The \<open>do ... while (val > timer_max && counter < prescaler_end)\<close> loop. The argument
  \<open>counter\<close> is the value before the body runs; the result is the pair of \<open>val\<close> and
  \<open>counter\<close> after the loop. A read outside the table is \<open>None\<close>.
\<close>

function presc_loop ::
  "32 word \<Rightarrow> 16 word \<Rightarrow> 8 word \<Rightarrow> 8 word \<Rightarrow> (32 word \<times> 8 word) option" where
  "presc_loop temp timer_max prescaler_end counter =
     (if unat counter < length prescalers
      then if ticks_at temp (unat counter) > ucast timer_max \<and> counter + 1 < prescaler_end
           then presc_loop temp timer_max prescaler_end (counter + 1)
           else Some (ticks_at temp (unat counter), counter + 1)
      else None)"
  by pat_completeness auto
termination
proof (relation "measure (\<lambda>(temp, timer_max, prescaler_end, counter).
                            unat (prescaler_end - 1 - counter))")
  show "wf (measure (\<lambda>(temp, timer_max, prescaler_end, counter).
                       unat (prescaler_end - 1 - counter)))"
    by simp
next
  fix temp :: "32 word" and timer_max :: "16 word" and prescaler_end counter :: "8 word"
  assume "ucast timer_max < ticks_at temp (unat counter) \<and> counter + 1 < prescaler_end"
  then have "prescaler_end - 1 - counter \<noteq> 0"
    by auto
  then have "unat (prescaler_end - 1 - counter - 1) < unat (prescaler_end - 1 - counter)"
    by (rule measure_unat)
  moreover have "prescaler_end - 1 - (counter + 1) = prescaler_end - 1 - counter - 1"
    by simp
  ultimately show "((temp, timer_max, prescaler_end, counter + 1),
                    (temp, timer_max, prescaler_end, counter))
        \<in> measure (\<lambda>(temp, timer_max, prescaler_end, counter).
                      unat (prescaler_end - 1 - counter))"
    by simp
qed

declare presc_loop.simps [simp del]

text \<open>
  The function itself. The last argument is the value that \<open>*timer_ticks\<close> holds before
  the call; the result is the returned \<open>int8_t\<close> together with the value \<open>*timer_ticks\<close>
  holds afterwards.
\<close>

definition calc_presc_CSbits ::
  "32 word \<Rightarrow> 32 word \<Rightarrow> AVR_Timers \<Rightarrow> 16 word \<Rightarrow> (8 word \<times> 16 word) option" where
  "calc_presc_CSbits F_CPU freq timer_id timer_ticks =
     (if freq = 0 then Some (- 1, timer_ticks)
      else
        let temp = F_CPU div freq in
        case timer_switch timer_id of
          None \<Rightarrow> Some (- 1, timer_ticks)
        | Some (prescaler_start, prescaler_end, timer_max) \<Rightarrow>
            (case presc_loop temp timer_max prescaler_end prescaler_start of
               None \<Rightarrow> None
             | Some (val, counter) \<Rightarrow>
                 if val > ucast timer_max then Some (- 1, timer_ticks)
                 else
                   let counter = (if counter = 0 then 1 else counter)
                   in Some (word_of_int (uint counter - uint prescaler_start), ucast val)))"

text \<open>
  The selection as the specification words it, for comparison with the loop: the first
  index of the subrange, in table order, whose tick count does not exceed the counter
  maximum.
\<close>

definition first_fit_index :: "32 word \<Rightarrow> 16 word \<Rightarrow> 8 word \<Rightarrow> 8 word \<Rightarrow> nat option" where
  "first_fit_index ratio timer_max prescaler_start prescaler_end =
     find (\<lambda>i. ticks_at ratio i \<le> ucast timer_max)
       [unat prescaler_start ..< unat prescaler_end]"

section \<open>UART divisor: \<open>calc_uart_UBRRn\<close>\<close>

text \<open>
  \<open>UART_CALC_USE_ERROR_CHECK\<close> is defined in the header, so the margin check is compiled
  in. \<open>UART_ERR_CALC(x)\<close> is \<open>(uint32_t)(x*(uint32_t)(UART_MAX_ERR_RATE*10)/1000)\<close> with
  \<open>UART_MAX_ERR_RATE\<close> equal to \<open>2.5\<close>; the constant factor is 25 and the product wraps
  in 32 bits.
\<close>

definition UART_MAX_ERR_RATE_x10 :: "32 word" where
  "UART_MAX_ERR_RATE_x10 = 25"

definition UART_ERR_CALC :: "32 word \<Rightarrow> 32 word" where
  "UART_ERR_CALC x = x * UART_MAX_ERR_RATE_x10 div 1000"

text \<open>
  \<open>abs((int32_t)(check_baudrate - baudrate))\<close> assigned to a \<open>uint32_t\<close>. The library
  function is \<open>int abs(int)\<close>, and \<open>int\<close> has 16 bits: the 32-bit difference is reduced
  to its low 16 bits on the way in, \<open>abs\<close> of \<open>-32768\<close> is undefined, and the
  non-negative \<open>int\<close> result is widened to 32 bits.
\<close>

definition abs_int :: "32 word \<Rightarrow> 32 word option" where
  "abs_int d =
     (let i = (ucast d :: 16 word)
      in if sint i = - 32768 then None
         else Some (word_of_int \<bar>sint i\<bar>))"

definition uart_prescaler :: "bool \<Rightarrow> 8 word" where
  "uart_prescaler is_U2X_set = (if is_U2X_set then 8 else 16)"

text \<open>
  \<open>temp = (F_CPU/(baudrate*prescaler)) - 1\<close>: computed in 32 bits and truncated to the
  \<open>uint16_t\<close> local. The caller has checked that the product is not zero.
\<close>

definition uart_first_val :: "32 word \<Rightarrow> 32 word \<Rightarrow> 8 word \<Rightarrow> 16 word" where
  "uart_first_val F_CPU baudrate prescaler = ucast (F_CPU div (baudrate * ucast prescaler) - 1)"

text \<open>
  \<open>check_baudrate = F_CPU/(prescaler*(temp+1))\<close>: the divisor \<open>prescaler*(temp+1)\<close> has
  two operands of 16 bits and is computed in \<open>unsigned int\<close>, so it wraps at \<open>2^16\<close>; a
  divisor of zero is undefined behaviour.
\<close>

definition uart_check_baudrate :: "32 word \<Rightarrow> 8 word \<Rightarrow> 16 word \<Rightarrow> 32 word option" where
  "uart_check_baudrate F_CPU prescaler temp =
     (let d = (ucast prescaler :: 16 word) * (temp + 1)
      in if d = 0 then None else Some (F_CPU div ucast d))"

text \<open>The adjacent candidate: \<open>temp++\<close> if the first candidate overshoots, else \<open>temp--\<close>.\<close>

definition uart_adjacent :: "32 word \<Rightarrow> 32 word \<Rightarrow> 16 word \<Rightarrow> 16 word" where
  "uart_adjacent check_baudrate baudrate temp =
     (if check_baudrate > baudrate then temp + 1 else temp - 1)"

definition calc_uart_UBRRn :: "32 word \<Rightarrow> 32 word \<Rightarrow> bool \<Rightarrow> 16 word option" where
  "calc_uart_UBRRn F_CPU baudrate is_U2X_set =
     (if baudrate = 0 then Some (- 1)
      else
        let prescaler = uart_prescaler is_U2X_set in
        if baudrate * ucast prescaler = 0 then None
        else
          let temp = uart_first_val F_CPU baudrate prescaler in
          if temp > 4095 then Some (- 1)
          else
            case uart_check_baudrate F_CPU prescaler temp of
              None \<Rightarrow> None
            | Some check_baudrate \<Rightarrow>
                if check_baudrate = baudrate then Some temp
                else
                  case abs_int (check_baudrate - baudrate) of
                    None \<Rightarrow> None
                  | Some first_diff \<Rightarrow>
                      let first_val = temp;
                          temp = uart_adjacent check_baudrate baudrate temp
                      in
                        case uart_check_baudrate F_CPU prescaler temp of
                          None \<Rightarrow> None
                        | Some check_baudrate \<Rightarrow>
                            (case abs_int (check_baudrate - baudrate) of
                               None \<Rightarrow> None
                             | Some second_diff \<Rightarrow>
                                 let temp = (if first_diff < second_diff then first_val
                                             else temp);
                                     first_diff = (if first_diff < second_diff then first_diff
                                                   else second_diff)
                                 in if first_diff > UART_ERR_CALC baudrate then Some (- 1)
                                    else Some temp))"

section \<open>Rounding to the nearest multiple\<close>

text \<open>
  Both rounding functions take two \<open>uint8_t\<close> arguments and work on a \<open>uint16_t\<close>
  local \<open>temp\<close>. The steps of the source are kept one by one: \<open>temp += y/2\<close>,
  \<open>temp -= temp % y\<close>, the test \<open>temp > UINT8_MAX\<close> with its repair, and the final
  cast to \<open>uint8_t\<close>.
\<close>

definition UINT8_MAX :: "16 word" where
  "UINT8_MAX = 255"

definition round_near_mul_wovf :: "8 word \<Rightarrow> 8 word \<Rightarrow> 8 word" where
  "round_near_mul_wovf x y =
     (let temp = (ucast x :: 16 word) in
      if y = 0 then 0
      else
        let temp = temp + ucast (y div 2);
            temp = temp - temp mod ucast y;
            temp = (if temp > UINT8_MAX
                    then (let temp = temp div ucast y in temp * ucast y)
                    else temp)
        in ucast temp)"

definition round_near_mul_wsat :: "8 word \<Rightarrow> 8 word \<Rightarrow> 8 word" where
  "round_near_mul_wsat x y =
     (let temp = (ucast x :: 16 word) in
      if y = 0 then 0
      else
        let temp = temp + ucast (y div 2);
            temp = temp - temp mod ucast y;
            temp = (if temp > UINT8_MAX
                    then (let temp = ucast (x div y) in temp * ucast y)
                    else temp)
        in ucast temp)"

section \<open>Properties of \<open>calc_presc_CSbits\<close>\<close>

subsection \<open>The loop finds the first fitting index\<close>

lemma presc_loop_find:
  assumes "unat c < unat e" and "unat e \<le> length prescalers"
  shows "presc_loop temp m e c =
         Some (case find (\<lambda>i. ticks_at temp i \<le> ucast m) [unat c ..< unat e] of
                 Some i \<Rightarrow> (ticks_at temp i, of_nat (Suc i))
               | None \<Rightarrow> (ticks_at temp (unat e - 1), e))"
  using assms
proof (induction temp m e c rule: presc_loop.induct)
  case (1 temp m e c)
  have inb: "unat c < length prescalers"
    using "1.prems" by simp
  have upt: "[unat c ..< unat e] = unat c # [Suc (unat c) ..< unat e]"
    using "1.prems"(1) by (simp add: upt_conv_Cons)
  have suc: "unat (c + 1) = Suc (unat c)"
  proof -
    have "unat c + unat (1 :: 8 word) < 2 ^ LENGTH(8)"
      using "1.prems" by (simp add: prescalers_def)
    then have "unat (c + 1) = unat c + unat (1 :: 8 word)"
      by (simp only: unat_add_lem [THEN iffD1])
    then show ?thesis by simp
  qed
  have next_word: "(of_nat (Suc (unat c)) :: 8 word) = c + 1"
    by simp
  show ?case
  proof (cases "ticks_at temp (unat c) \<le> ucast m")
    case True
    then have "presc_loop temp m e c = Some (ticks_at temp (unat c), c + 1)"
      using inb by (subst presc_loop.simps) (simp add: not_less [symmetric])
    moreover have "find (\<lambda>i. ticks_at temp i \<le> ucast m) [unat c ..< unat e] = Some (unat c)"
      using True by (simp add: upt)
    ultimately show ?thesis
      by (simp only: option.case prod.case next_word)
  next
    case False
    then have gt: "ucast m < ticks_at temp (unat c)"
      by simp
    have skip: "find (\<lambda>i. ticks_at temp i \<le> ucast m) [unat c ..< unat e]
                = find (\<lambda>i. ticks_at temp i \<le> ucast m) [Suc (unat c) ..< unat e]"
      using False by (simp add: upt)
    show ?thesis
    proof (cases "c + 1 < e")
      case True
      then have lt: "unat (c + 1) < unat e"
        by (simp add: word_less_nat_alt)
      have "presc_loop temp m e c = presc_loop temp m e (c + 1)"
        using inb gt True by (subst presc_loop.simps) simp
      also have "\<dots> = Some (case find (\<lambda>i. ticks_at temp i \<le> ucast m) [unat (c + 1) ..< unat e] of
                 Some i \<Rightarrow> (ticks_at temp i, of_nat (Suc i))
               | None \<Rightarrow> (ticks_at temp (unat e - 1), e))"
        using "1.IH" [OF inb _ lt "1.prems"(2)] gt True by simp
      finally show ?thesis
        by (simp only: skip suc)
    next
      case False
      then have "unat e \<le> unat (c + 1)"
        by (simp add: word_less_nat_alt)
      then have e: "unat e = Suc (unat c)"
        using "1.prems"(1) suc by simp
      then have ew: "e = c + 1"
        using suc by (simp add: word_unat_eq_iff)
      have "presc_loop temp m e c = Some (ticks_at temp (unat c), c + 1)"
        using inb False by (subst presc_loop.simps) simp
      moreover have "find (\<lambda>i. ticks_at temp i \<le> ucast m) [unat c ..< unat e] = None"
        using gt by (simp add: upt e)
      moreover have "unat e - 1 = unat c"
        using e by simp
      ultimately show ?thesis
        by (simp only: option.case ew [symmetric])
    qed
  qed
qed

lemma timer_switch_cases:
  assumes "timer_switch timer_id = Some (s, e, m)"
  shows "(s, e, m) = (0, 5, 255) \<or> (s, e, m) = (0, 5, 65535) \<or> (s, e, m) = (5, 12, 255)"
  using assms by (auto simp: timer_switch_def split: if_splits)

lemma timer_switch_range:
  assumes "timer_switch timer_id = Some (s, e, m)"
  shows "unat s < unat e \<and> unat e \<le> 12"
  using timer_switch_cases [OF assms] by auto

lemma length_prescalers: "length prescalers = 12"
  by (simp add: prescalers_def)

lemma timer_switch_None_iff:
  "timer_switch timer_id = None \<longleftrightarrow>
     timer_id \<notin> {AVR_TIMER0, AVR_TIMER1, AVR_TIMER2, AVR_TIMER3, AVR_TIMER4, AVR_TIMER5}"
  by (simp add: timer_switch_def)

lemma cs_bits_word:
  assumes "unat s \<le> i" and "i < 12"
  shows "(word_of_int (uint (of_nat (Suc i) :: 8 word) - uint (s :: 8 word)) :: 8 word)
         = of_nat (Suc (i - unat s))"
proof -
  have "unat (of_nat (Suc i) :: 8 word) = Suc i"
    using assms(2) by (simp add: unat_of_nat del: of_nat_Suc)
  then have "uint (of_nat (Suc i) :: 8 word) = int (Suc i)"
    by (simp only: uint_nat)
  moreover have "uint s = int (unat s)"
    by (simp only: uint_nat)
  moreover have "int (Suc i) - int (unat s) = int (Suc (i - unat s))"
    using assms(1) by simp
  ultimately have "uint (of_nat (Suc i) :: 8 word) - uint s = int (Suc (i - unat s))"
    by (simp only:)
  then show ?thesis
    by (simp only: of_int_of_nat_eq)
qed

lemma calc_presc_CSbits_first_fit:
  assumes "freq \<noteq> 0" and "timer_switch timer_id = Some (s, e, m)"
  shows "calc_presc_CSbits F_CPU freq timer_id timer_ticks =
         (case first_fit_index (F_CPU div freq) m s e of
            None \<Rightarrow> Some (- 1, timer_ticks)
          | Some i \<Rightarrow> Some (of_nat (Suc (i - unat s)), ucast (ticks_at (F_CPU div freq) i)))"
proof -
  let ?fits = "\<lambda>i. ticks_at (F_CPU div freq) i \<le> ucast m"
  note range = timer_switch_range [OF assms(2)]
  have loop: "presc_loop (F_CPU div freq) m e s =
         Some (case find ?fits [unat s ..< unat e] of
                 Some i \<Rightarrow> (ticks_at (F_CPU div freq) i, of_nat (Suc i))
               | None \<Rightarrow> (ticks_at (F_CPU div freq) (unat e - 1), e))"
    using range by (simp add: presc_loop_find length_prescalers)
  show ?thesis
  proof (cases "find ?fits [unat s ..< unat e]")
    case None
    then have "\<not> (\<exists>x. x \<in> set [unat s ..< unat e] \<and> ?fits x)"
      by (simp add: find_None_iff)
    moreover have "unat e - 1 \<in> set [unat s ..< unat e]"
      using range by auto
    ultimately have "\<not> ?fits (unat e - 1)"
      by blast
    then have "ucast m < ticks_at (F_CPU div freq) (unat e - 1)"
      by simp
    then show ?thesis
      using assms loop None by (simp add: calc_presc_CSbits_def first_fit_index_def)
  next
    case (Some i)
    then have i: "unat s \<le> i" "i < unat e" "?fits i"
      by (auto simp: find_Some_iff)
    then have i12: "i < 12"
      using range by simp
    have nz: "(of_nat (Suc i) :: 8 word) \<noteq> 0"
    proof -
      have "unat (of_nat (Suc i) :: 8 word) = Suc i"
        using i12 by (simp add: unat_of_nat del: of_nat_Suc)
      then show ?thesis
        by (metis Suc_neq_Zero unat_0)
    qed
    have "\<not> ucast m < ticks_at (F_CPU div freq) i"
      using i(3) by simp
    then show ?thesis
      using assms(1) loop Some nz cs_bits_word [OF i(1) i12]
      by (simp add: calc_presc_CSbits_def first_fit_index_def assms(2) del: of_nat_Suc)
  qed
qed

lemma find_upt_Some_iff:
  "find P [a ..< b] = Some i \<longleftrightarrow> a \<le> i \<and> i < b \<and> P i \<and> (\<forall>j. a \<le> j \<and> j < i \<longrightarrow> \<not> P j)"
proof
  assume "find P [a ..< b] = Some i"
  then obtain k where k: "k < length [a ..< b]" "P ([a ..< b] ! k)" "i = [a ..< b] ! k"
      "\<forall>j<k. \<not> P ([a ..< b] ! j)"
    by (auto simp: find_Some_iff)
  from k(1,3) have i: "i = a + k" "k < b - a"
    by simp_all
  have "\<not> P j" if "a \<le> j" "j < i" for j
  proof -
    from that i have "j - a < k" "j - a < b - a" by simp_all
    with k(4) have "\<not> P ([a ..< b] ! (j - a))" by blast
    with that(1) \<open>j - a < b - a\<close> show ?thesis by simp
  qed
  with i k(2) show "a \<le> i \<and> i < b \<and> P i \<and> (\<forall>j. a \<le> j \<and> j < i \<longrightarrow> \<not> P j)"
    by auto
next
  assume r: "a \<le> i \<and> i < b \<and> P i \<and> (\<forall>j. a \<le> j \<and> j < i \<longrightarrow> \<not> P j)"
  then have "i - a < length [a ..< b]" "[a ..< b] ! (i - a) = i"
    by auto
  moreover have "\<forall>j<i - a. \<not> P ([a ..< b] ! j)"
    using r by auto
  ultimately show "find P [a ..< b] = Some i"
    using r by (auto simp: find_Some_iff)
qed

lemma find_upt_None_iff:
  "find P [a ..< b] = None \<longleftrightarrow> (\<forall>i. a \<le> i \<and> i < b \<longrightarrow> \<not> P i)"
  by (auto simp: find_None_iff)

lemma sint_of_nat_small:
  assumes "n < 128"
  shows "sint (of_nat n :: 8 word) = int n"
proof -
  have "uint (of_nat n :: 8 word) = int n"
    using assms by (simp add: uint_nat unat_of_nat)
  then show ?thesis
    using assms by (simp add: sint_uint signed_take_bit_int_eq_self)
qed

lemma ticks_fit_16:
  assumes "ticks_at ratio i \<le> ucast (m :: 16 word)"
  shows "unat (ucast (ticks_at ratio i) :: 16 word) = unat (ticks_at ratio i)
         \<and> unat (ticks_at ratio i) \<le> unat m"
proof -
  have m: "unat (ucast m :: 32 word) = unat m"
    by (simp add: unsigned_ucast_eq take_bit_nat_eq_self_iff
        less_trans [OF unsigned_less [of m, where 'a = nat]])
  have le: "unat (ticks_at ratio i) \<le> unat m"
    using assms by (simp add: word_le_nat_alt m)
  moreover have "unat m < 2 ^ 16"
    using unsigned_less [of m, where 'a = nat] by simp
  ultimately have "unat (ticks_at ratio i) < 2 ^ 16"
    by simp
  then have "unat (ucast (ticks_at ratio i) :: 16 word) = unat (ticks_at ratio i)"
    by (simp add: unsigned_ucast_eq take_bit_nat_eq_self_iff)
  with le show ?thesis by simp
qed

text \<open>
  The tick count over the natural numbers: an index fits exactly when the quotient
  \<open>(F_CPU/freq)/prescalers[i]\<close> is at least 1 and the quotient minus 1 does not exceed
  the counter maximum. With a quotient of 0 the subtraction wraps to \<open>2^32 - 1\<close>, which
  exceeds every counter maximum.
\<close>

lemma ticks_at_fits_iff:
  "ticks_at ratio i \<le> ucast (m :: 16 word) \<longleftrightarrow>
     0 < unat ratio div unat (prescalers ! i)
     \<and> unat ratio div unat (prescalers ! i) - 1 \<le> unat m"
proof -
  let ?q = "ratio div ucast (prescalers ! i)"
  have p: "unat (ucast (prescalers ! i) :: 32 word) = unat (prescalers ! i)"
    by (simp add: unsigned_ucast_eq take_bit_nat_eq_self_iff
        less_trans [OF unsigned_less [of "prescalers ! i", where 'a = nat]])
  have q: "unat ?q = unat ratio div unat (prescalers ! i)"
    by (simp add: unat_div p)
  have m: "unat (ucast m :: 32 word) = unat m"
    by (simp add: unsigned_ucast_eq take_bit_nat_eq_self_iff
        less_trans [OF unsigned_less [of m, where 'a = nat]])
  have mlt: "unat m < 65536"
    using unsigned_less [of m, where 'a = nat] by simp
  show ?thesis
  proof (cases "?q = 0")
    case True
    then have "ticks_at ratio i = - 1"
      by (simp add: ticks_at_def)
    moreover have "unat (- 1 :: 32 word) = 4294967295"
      by (simp add: unsigned_minus_1_eq_mask mask_eq_exp_minus_1)
    ultimately have "unat (ticks_at ratio i) = 4294967295"
      by (simp only:)
    moreover have "unat ratio div unat (prescalers ! i) = 0"
      using True q by (simp add: unat_eq_0)
    ultimately show ?thesis
      using mlt by (simp add: word_le_nat_alt m)
  next
    case False
    then have "unat (ticks_at ratio i) = unat ?q - 1"
      by (simp add: ticks_at_def unat_minus_one)
    moreover have "0 < unat ?q"
      using False by (simp add: unat_gt_0)
    ultimately show ?thesis
      by (simp add: word_le_nat_alt m q)
  qed
qed

subsection \<open>Claims about the returned value and the written tick count\<close>

text \<open>
  C6, in the form the code satisfies: for nonzero \<open>freq\<close> and a recognized timer the
  function scans the subrange from its start and stops at the first index \<open>i\<close> whose
  tick count \<open>(F_CPU/freq)/prescalers[i] - 1\<close>, computed in \<open>uint32_t\<close> (so that a zero
  quotient wraps to \<open>2^32 - 1\<close> and does not qualify), does not exceed the counter
  maximum (255 for timers 0 and 2, 65535 for timers 1, 3, 4, 5). It then succeeds and
  writes exactly that tick count, which fits the counter; if no index of the subrange
  qualifies it returns \<open>-1\<close>.
\<close>

theorem calc_presc_CSbits_scan:
  assumes "freq \<noteq> 0"
    and "timer_switch timer_id = Some (prescaler_start, prescaler_end, timer_max)"
  shows "timer_max = (if timer_id = AVR_TIMER0 \<or> timer_id = AVR_TIMER2 then 255 else 65535)
    \<and> (\<forall>i. unat prescaler_start \<le> i \<and> i < unat prescaler_end
            \<and> ticks_at (F_CPU div freq) i \<le> ucast timer_max
            \<and> (\<forall>j. unat prescaler_start \<le> j \<and> j < i
                   \<longrightarrow> ucast timer_max < ticks_at (F_CPU div freq) j)
          \<longrightarrow> (\<exists>r. calc_presc_CSbits F_CPU freq timer_id timer_ticks
                      = Some (r, ucast (ticks_at (F_CPU div freq) i)) \<and> 0 < sint r)
              \<and> unat (ucast (ticks_at (F_CPU div freq) i) :: 16 word)
                  = unat (ticks_at (F_CPU div freq) i)
              \<and> unat (ticks_at (F_CPU div freq) i) \<le> unat timer_max)
    \<and> ((\<forall>i. unat prescaler_start \<le> i \<and> i < unat prescaler_end
             \<longrightarrow> ucast timer_max < ticks_at (F_CPU div freq) i)
          \<longrightarrow> calc_presc_CSbits F_CPU freq timer_id timer_ticks = Some (- 1, timer_ticks))"
proof -
  let ?fits = "\<lambda>i. ticks_at (F_CPU div freq) i \<le> ucast timer_max"
  note eq = calc_presc_CSbits_first_fit [OF assms, of F_CPU timer_ticks]
  note range = timer_switch_range [OF assms(2)]
  have max: "timer_max = (if timer_id = AVR_TIMER0 \<or> timer_id = AVR_TIMER2 then 255 else 65535)"
    using assms(2)
    by (auto simp: timer_switch_def AVR_TIMER0_def AVR_TIMER1_def AVR_TIMER2_def
        AVR_TIMER3_def AVR_TIMER4_def AVR_TIMER5_def split: if_splits)
  have hit: "(\<exists>r. calc_presc_CSbits F_CPU freq timer_id timer_ticks
                      = Some (r, ucast (ticks_at (F_CPU div freq) i)) \<and> 0 < sint r)
              \<and> unat (ucast (ticks_at (F_CPU div freq) i) :: 16 word)
                  = unat (ticks_at (F_CPU div freq) i)
              \<and> unat (ticks_at (F_CPU div freq) i) \<le> unat timer_max"
    if i: "unat prescaler_start \<le> i" "i < unat prescaler_end" "?fits i"
      and first: "\<forall>j. unat prescaler_start \<le> j \<and> j < i
                   \<longrightarrow> ucast timer_max < ticks_at (F_CPU div freq) j"
    for i
  proof -
    have "first_fit_index (F_CPU div freq) timer_max prescaler_start prescaler_end = Some i"
      unfolding first_fit_index_def find_upt_Some_iff using i first by auto
    then have r: "calc_presc_CSbits F_CPU freq timer_id timer_ticks
        = Some (of_nat (Suc (i - unat prescaler_start)), ucast (ticks_at (F_CPU div freq) i))"
      using eq by simp
    have "Suc (i - unat prescaler_start) < 128"
      using i(2) range by arith
    then have "sint (of_nat (Suc (i - unat prescaler_start)) :: 8 word)
               = int (Suc (i - unat prescaler_start))"
      by (rule sint_of_nat_small)
    then have "0 < sint (of_nat (Suc (i - unat prescaler_start)) :: 8 word)"
      by simp
    with r ticks_fit_16 [OF i(3)] show ?thesis
      by blast
  qed
  have miss: "calc_presc_CSbits F_CPU freq timer_id timer_ticks = Some (- 1, timer_ticks)"
    if "\<forall>i. unat prescaler_start \<le> i \<and> i < unat prescaler_end
             \<longrightarrow> ucast timer_max < ticks_at (F_CPU div freq) i"
  proof -
    have "first_fit_index (F_CPU div freq) timer_max prescaler_start prescaler_end = None"
      unfolding first_fit_index_def find_upt_None_iff using that by auto
    then show ?thesis
      using eq by simp
  qed
  show ?thesis
    using max hit miss by blast
qed

text \<open>
  Two runs at 16 MHz and 1 kHz. Timer 0 stops at the divisor 64 (index 2) and returns
  the clock-select value 3; timer 2 stops at its divisor 64 (index 8, the fourth of its
  subrange) and returns 4.
\<close>

lemma calc_presc_CSbits_timer0_1kHz:
  "calc_presc_CSbits 16000000 1000 AVR_TIMER0 7 = Some (3, 249)"
  by code_simp

lemma calc_presc_CSbits_timer2_1kHz:
  "calc_presc_CSbits 16000000 1000 AVR_TIMER2 7 = Some (4, 249)"
  by code_simp

theorem calc_presc_CSbits_scan_witness:
  "(1000 :: 32 word) \<noteq> 0
   \<and> timer_switch AVR_TIMER0 = Some (0, 5, 255)
   \<and> ticks_at (16000000 div 1000) 2 \<le> ucast (255 :: 16 word)
   \<and> ucast (255 :: 16 word) < ticks_at (16000000 div 1000) 0
   \<and> ucast (255 :: 16 word) < ticks_at (16000000 div 1000) 1
   \<and> (\<exists>r. calc_presc_CSbits 16000000 1000 AVR_TIMER0 7 = Some (r, 249) \<and> 0 < sint r)"
proof -
  have h1: "(1000 :: 32 word) \<noteq> 0"
    by simp
  have h2: "timer_switch AVR_TIMER0 = Some (0, 5, 255)"
    by (simp add: timer_switch_def)
  have t0: "ucast (255 :: 16 word) < ticks_at (16000000 div 1000) 0"
    and t1: "ucast (255 :: 16 word) < ticks_at (16000000 div 1000) 1"
    and t2: "ticks_at (16000000 div 1000) 2 \<le> ucast (255 :: 16 word)"
    and v: "ucast (ticks_at (16000000 div 1000) 2) = (249 :: 16 word)"
    by (simp_all add: ticks_at_def prescalers_def)
  have first: "\<forall>j. unat (0 :: 8 word) \<le> j \<and> j < 2
                 \<longrightarrow> ucast (255 :: 16 word) < ticks_at (16000000 div 1000) j"
  proof (intro allI impI)
    fix j :: nat
    assume "unat (0 :: 8 word) \<le> j \<and> j < 2"
    then have "j = 0 \<or> j = 1" by auto
    then show "ucast (255 :: 16 word) < ticks_at (16000000 div 1000) j"
      using t0 t1 by auto
  qed
  have "\<exists>r. calc_presc_CSbits 16000000 1000 AVR_TIMER0 7
              = Some (r, ucast (ticks_at (16000000 div 1000) 2)) \<and> 0 < sint r"
    using calc_presc_CSbits_scan [OF h1 h2, of 16000000 7] t2 first by simp
  then show ?thesis
    using h1 h2 t0 t1 t2 v by simp
qed

text \<open>
  C6 as stated, with the tick count read over the integers, does not hold: at 16 MHz,
  17 MHz and timer 0 the ratio is 0, so \<open>(F_CPU/freq)/1 - 1\<close> is \<open>-1\<close>, which does not
  exceed 255, and the first divisor would qualify. In the code the subtraction wraps to
  \<open>2^32 - 1\<close> for every divisor and the function returns \<open>-1\<close> without writing.
\<close>

theorem calc_presc_CSbits_scan_counterexample:
  "(17000000 :: 32 word) \<noteq> 0
   \<and> timer_switch AVR_TIMER0 = Some (0, 5, 255)
   \<and> (uint (16000000 :: 32 word) div uint (17000000 :: 32 word)) div uint (prescalers ! 0) - 1 = - 1
   \<and> (uint (16000000 :: 32 word) div uint (17000000 :: 32 word)) div uint (prescalers ! 0) - 1
       \<le> uint (255 :: 16 word)
   \<and> ticks_at (16000000 div 17000000) 0 = 4294967295
   \<and> calc_presc_CSbits 16000000 17000000 AVR_TIMER0 7 = Some (- 1, 7)"
  by code_simp

text \<open>
  C1 as stated does not hold: at 16 MHz, 1 MHz and timer 0 the selected divisor is the
  first of the subrange (index 0, subrange start 0), the tick count 15 is computed with
  it, and the function returns 1, not the zero-based offset 0.
\<close>

theorem calc_presc_CSbits_offset_counterexample:
  "timer_switch AVR_TIMER0 = Some (0, 5, 255)
   \<and> first_fit_index (16000000 div 1000000) 255 0 5 = Some 0
   \<and> ticks_at (16000000 div 1000000) 0 = 15
   \<and> calc_presc_CSbits 16000000 1000000 AVR_TIMER0 0 = Some (1, 15)
   \<and> \<not> (sint (1 :: 8 word) = int 0 - int (unat (0 :: 8 word)))"
  by code_simp

text \<open>
  C1, in the form the code satisfies: when the function succeeds for a nonzero \<open>freq\<close> and a recognized timer,
  the returned value is the one-based position of the selected prescaler within the
  subrange, that is the selected index minus the subrange start plus one (the value of
  the clock-select bits, which the header names as the return value), where the selected
  index is the first fitting one and its divisor is the one used for the written tick
  count.
\<close>

theorem calc_presc_CSbits_cs_bits:
  assumes "freq \<noteq> 0"
    and "timer_switch timer_id = Some (prescaler_start, prescaler_end, timer_max)"
    and "calc_presc_CSbits F_CPU freq timer_id timer_ticks = Some (r, ticks)"
    and "0 \<le> sint r"
  shows "\<exists>i. first_fit_index (F_CPU div freq) timer_max prescaler_start prescaler_end = Some i
             \<and> unat prescaler_start \<le> i \<and> i < unat prescaler_end
             \<and> ticks = ucast (ticks_at (F_CPU div freq) i)
             \<and> sint r = int i - int (unat prescaler_start) + 1"
proof (cases "first_fit_index (F_CPU div freq) timer_max prescaler_start prescaler_end")
  case None
  then have "r = - 1"
    using calc_presc_CSbits_first_fit [OF assms(1,2), of F_CPU timer_ticks] assms(3) by simp
  then show ?thesis
    using assms(4) by simp
next
  case (Some i)
  then have r: "r = of_nat (Suc (i - unat prescaler_start))"
      and t: "ticks = ucast (ticks_at (F_CPU div freq) i)"
    using calc_presc_CSbits_first_fit [OF assms(1,2), of F_CPU timer_ticks] assms(3) by simp_all
  from Some have i: "unat prescaler_start \<le> i" "i < unat prescaler_end"
    by (simp_all add: first_fit_index_def find_upt_Some_iff)
  have "Suc (i - unat prescaler_start) < 128"
    using i(2) timer_switch_range [OF assms(2)] by arith
  then have "sint r = int (Suc (i - unat prescaler_start))"
    unfolding r by (rule sint_of_nat_small)
  then have "sint r = int i - int (unat prescaler_start) + 1"
    using i(1) by simp
  with Some i t show ?thesis
    by simp
qed

theorem calc_presc_CSbits_cs_bits_witness:
  "(1000 :: 32 word) \<noteq> 0
   \<and> timer_switch AVR_TIMER2 = Some (5, 12, 255)
   \<and> calc_presc_CSbits 16000000 1000 AVR_TIMER2 0 = Some (4, 249)
   \<and> 0 \<le> sint (4 :: 8 word)
   \<and> (\<exists>i. first_fit_index (16000000 div 1000) 255 5 12 = Some i
           \<and> sint (4 :: 8 word) = int i - int (unat (5 :: 8 word)) + 1)"
proof -
  have h1: "(1000 :: 32 word) \<noteq> 0"
    by simp
  have h2: "timer_switch AVR_TIMER2 = Some (5, 12, 255)"
    by code_simp
  have h3: "calc_presc_CSbits 16000000 1000 AVR_TIMER2 0 = Some (4, 249)"
    by code_simp
  have h4: "0 \<le> sint (4 :: 8 word)"
    by simp
  show ?thesis
    using calc_presc_CSbits_cs_bits [OF h1 h2 h3 h4] h1 h2 h3 h4 by blast
qed

text \<open>
  C10: the function always returns, and whenever it returns \<open>-1\<close> the value behind
  \<open>timer_ticks\<close> is the one it held before the call. It returns \<open>-1\<close> exactly when
  \<open>freq\<close> is zero, the timer is not recognized, or no prescaler of the subrange keeps
  the tick count within the counter maximum.
\<close>

theorem calc_presc_CSbits_error_keeps_ticks:
  "\<exists>r ticks. calc_presc_CSbits F_CPU freq timer_id timer_ticks = Some (r, ticks)
      \<and> (sint r = - 1 \<longrightarrow> ticks = timer_ticks)
      \<and> (sint r = - 1 \<longleftrightarrow>
           freq = 0
           \<or> (case timer_switch timer_id of
                 None \<Rightarrow> True
               | Some (prescaler_start, prescaler_end, timer_max) \<Rightarrow>
                   first_fit_index (F_CPU div freq) timer_max prescaler_start prescaler_end = None))"
proof (cases "freq = 0")
  case True
  then show ?thesis
    by (simp add: calc_presc_CSbits_def)
next
  case nz: False
  show ?thesis
  proof (cases "timer_switch timer_id")
    case None
    then show ?thesis
      using nz by (simp add: calc_presc_CSbits_def)
  next
    case (Some cfg)
    then obtain s e m where cfg: "timer_switch timer_id = Some (s, e, m)"
      by (cases cfg) auto
    note eq = calc_presc_CSbits_first_fit [OF nz cfg, of F_CPU timer_ticks]
    show ?thesis
    proof (cases "first_fit_index (F_CPU div freq) m s e")
      case None
      then show ?thesis
        using eq nz cfg by simp
    next
      case (Some i)
      then have i: "i < unat e"
        by (simp add: first_fit_index_def find_upt_Some_iff)
      have "Suc (i - unat s) < 128"
        using i timer_switch_range [OF cfg] by arith
      then have "sint (of_nat (Suc (i - unat s)) :: 8 word) = int (Suc (i - unat s))"
        by (rule sint_of_nat_small)
      then have "sint (of_nat (Suc (i - unat s)) :: 8 word) \<noteq> - 1"
        by simp
      then show ?thesis
        using eq nz cfg Some by (simp del: of_nat_Suc)
    qed
  qed
qed

theorem calc_presc_CSbits_error_keeps_ticks_witness:
  "\<exists>r ticks. calc_presc_CSbits 16000000 1 AVR_TIMER0 7 = Some (r, ticks)
      \<and> sint r = - 1 \<and> ticks = 7"
proof -
  have "calc_presc_CSbits 16000000 1 AVR_TIMER0 7 = Some (- 1, 7)"
    by code_simp
  then show ?thesis
    using calc_presc_CSbits_error_keeps_ticks [of 16000000 1 AVR_TIMER0 7] by auto
qed

section \<open>Properties of \<open>calc_uart_UBRRn\<close>\<close>


text \<open>A run with the usual setting: 9600 baud at 16 MHz gives the divisor 103.\<close>

lemma calc_uart_UBRRn_9600: "calc_uart_UBRRn 16000000 9600 False = Some 103"
  by code_simp

subsection \<open>The 16-bit absolute value is symmetric\<close>

lemma ucast_minus_32_16: "(ucast (- d :: 32 word) :: 16 word) = - ucast d"
proof -
  have "(2 :: int) ^ 16 dvd 2 ^ 32"
    by simp
  then have "(- uint d mod 2 ^ 32) mod 2 ^ 16 = (- uint d) mod 2 ^ 16"
    by (rule mod_mod_cancel)
  then have "take_bit LENGTH(16) (- uint d mod 2 ^ 32) = take_bit LENGTH(16) (- uint d)"
    by (simp add: take_bit_eq_mod)
  then have m: "(word_of_int (- uint d mod 2 ^ 32) :: 16 word) = word_of_int (- uint d)"
    by (simp only: word_of_int_eq_iff)
  have "(ucast (- d) :: 16 word) = word_of_int (uint (- d))"
    by (simp only: ucast_eq)
  also have "\<dots> = word_of_int (- uint d mod 2 ^ 32)"
    by (simp add: uint_word_ariths)
  also have "\<dots> = word_of_int (- uint d)"
    by (rule m)
  also have "\<dots> = - word_of_int (uint d)"
    by simp
  also have "\<dots> = - (ucast d :: 16 word)"
    by (simp only: ucast_eq)
  finally show ?thesis .
qed

lemma sint_minus_16:
  assumes "sint (i :: 16 word) \<noteq> - 32768"
  shows "sint (- i) = - sint i"
proof -
  have "- (2 ^ 15) \<le> sint i" "sint i < 2 ^ 15"
    using sint_ge [of i] sint_lt [of i] by simp_all
  with assms have "- (2 ^ 15) \<le> - sint i" "- sint i < 2 ^ 15"
    by simp_all
  then have "signed_take_bit 15 (- sint i) = - sint i"
    by (rule signed_take_bit_int_eq_self)
  then show ?thesis
    by (simp add: sint_word_ariths)
qed

lemma sint_min_16:
  assumes "sint (i :: 16 word) = - 32768"
  shows "sint (- i) = - 32768"
  using assms by (simp add: sint_word_ariths)

lemma abs_int_minus: "abs_int (- d) = abs_int d"
proof (cases "sint (ucast d :: 16 word) = - 32768")
  case True
  then show ?thesis
    by (simp add: abs_int_def ucast_minus_32_16 sint_min_16)
next
  case False
  have "sint (ucast d :: 16 word) < 2 ^ 15"
    using sint_lt [of "ucast d :: 16 word"] by simp
  then have "- sint (ucast d :: 16 word) \<noteq> - 32768"
    by simp
  then show ?thesis
    using False by (simp add: abs_int_def ucast_minus_32_16 sint_minus_16)
qed

lemma abs_int_tie:
  assumes "\<bar>uint check2 - uint baudrate\<bar> = \<bar>uint check1 - uint baudrate\<bar>"
  shows "abs_int (check2 - baudrate) = abs_int (check1 - baudrate)"
proof -
  have w: "c - baudrate = word_of_int (uint c - uint baudrate)" for c :: "32 word"
    by simp
  from assms have "uint check2 - uint baudrate = uint check1 - uint baudrate
      \<or> uint check2 - uint baudrate = - (uint check1 - uint baudrate)"
    by (simp add: abs_eq_iff)
  then show ?thesis
  proof
    assume eq: "uint check2 - uint baudrate = uint check1 - uint baudrate"
    have "check2 - baudrate = word_of_int (uint check2 - uint baudrate)"
      by (rule w)
    also have "\<dots> = word_of_int (uint check1 - uint baudrate)"
      by (simp only: eq)
    also have "\<dots> = check1 - baudrate"
      by (rule w [symmetric])
    finally show ?thesis
      by (simp only:)
  next
    assume eq: "uint check2 - uint baudrate = - (uint check1 - uint baudrate)"
    have "check2 - baudrate = word_of_int (uint check2 - uint baudrate)"
      by (rule w)
    also have "\<dots> = word_of_int (- (uint check1 - uint baudrate))"
      by (simp only: eq)
    also have "\<dots> = - word_of_int (uint check1 - uint baudrate)"
      by (rule of_int_minus)
    also have "\<dots> = - (check1 - baudrate)"
      by (simp only: w [symmetric])
    finally show ?thesis
      by (simp only: abs_int_minus)
  qed
qed

subsection \<open>Claims about \<open>calc_uart_UBRRn\<close>\<close>

text \<open>
  C3, in the form the code satisfies: when the first candidate does not match the target exactly and the
  adjacent candidate deviates from the target by the same absolute amount, the function
  does not return the first candidate. The test \<open>first_diff < second_diff\<close> is strict, so
  the adjacent candidate is kept: the function returns the adjacent candidate if the
  deviation it computed is within the margin, and \<open>-1\<close> otherwise.
\<close>

theorem calc_uart_UBRRn_tie:
  fixes F_CPU baudrate check1 check2 :: "32 word" and r :: "16 word" and is_U2X_set :: bool
    and prescaler :: "8 word" and first_val adjacent :: "16 word"
  defines "prescaler \<equiv> uart_prescaler is_U2X_set"
    and "first_val \<equiv> uart_first_val F_CPU baudrate prescaler"
    and "adjacent \<equiv> uart_adjacent check1 baudrate first_val"
  assumes "baudrate \<noteq> 0"
    and "first_val \<le> 4095"
    and "uart_check_baudrate F_CPU prescaler first_val = Some check1"
    and "check1 \<noteq> baudrate"
    and "uart_check_baudrate F_CPU prescaler adjacent = Some check2"
    and "\<bar>uint check2 - uint baudrate\<bar> = \<bar>uint check1 - uint baudrate\<bar>"
    and "calc_uart_UBRRn F_CPU baudrate is_U2X_set = Some r"
  shows "r \<noteq> first_val
         \<and> (\<exists>d. abs_int (check2 - baudrate) = Some d
                \<and> r = (if d > UART_ERR_CALC baudrate then - 1 else adjacent))"
proof -
  have tie: "abs_int (check1 - baudrate) = abs_int (check2 - baudrate)"
    using assms(9) by (rule abs_int_tie [symmetric])
  have nz: "baudrate * ucast prescaler \<noteq> 0"
    using assms(4,10) by (auto simp: calc_uart_UBRRn_def Let_def prescaler_def)
  have le: "\<not> first_val > 4095"
    using assms(5) by simp
  have unfold: "calc_uart_UBRRn F_CPU baudrate is_U2X_set =
      (case abs_int (check2 - baudrate) of
         None \<Rightarrow> None
       | Some d \<Rightarrow> if d > UART_ERR_CALC baudrate then Some (- 1) else Some adjacent)"
    using assms(4) nz le assms(6,7,8)
    by (simp add: calc_uart_UBRRn_def Let_def tie split: option.split
        flip: prescaler_def first_val_def adjacent_def)
  then obtain d where d: "abs_int (check2 - baudrate) = Some d"
    using assms(10) by (cases "abs_int (check2 - baudrate)") simp_all
  have r: "r = (if d > UART_ERR_CALC baudrate then - 1 else adjacent)"
    using unfold assms(10) d by (simp split: if_splits)
  have "adjacent \<noteq> first_val"
    by (simp add: adjacent_def uart_adjacent_def)
  moreover have "first_val \<noteq> - 1"
  proof
    assume "first_val = - 1"
    with assms(5) have "(- 1 :: 16 word) \<le> 4095"
      by simp
    moreover have "\<not> (- 1 :: 16 word) \<le> 4095"
      by code_simp
    ultimately show False
      by simp
  qed
  ultimately have "r \<noteq> first_val"
    using r by auto
  with d r show ?thesis
    by blast
qed

text \<open>
  C3 as stated does not hold: at 16 MHz and 1032 baud the first candidate 967 yields
  1033 baud, the adjacent candidate 968 yields 1031 baud, both are off by one, and the
  function returns 968.
\<close>

theorem calc_uart_UBRRn_tie_counterexample:
  "uart_first_val 16000000 1032 (uart_prescaler False) = 967
   \<and> uart_check_baudrate 16000000 (uart_prescaler False) 967 = Some 1033
   \<and> uart_adjacent 1033 1032 967 = 968
   \<and> uart_check_baudrate 16000000 (uart_prescaler False) 968 = Some 1031
   \<and> \<bar>uint (1031 :: 32 word) - uint (1032 :: 32 word)\<bar>
       = \<bar>uint (1033 :: 32 word) - uint (1032 :: 32 word)\<bar>
   \<and> calc_uart_UBRRn 16000000 1032 False = Some 968
   \<and> \<not> (calc_uart_UBRRn 16000000 1032 False = Some 967)"
  by code_simp

theorem calc_uart_UBRRn_tie_witness:
  "(1032 :: 32 word) \<noteq> 0
   \<and> uart_first_val 16000000 1032 (uart_prescaler False) \<le> 4095
   \<and> uart_check_baudrate 16000000 (uart_prescaler False)
        (uart_first_val 16000000 1032 (uart_prescaler False)) = Some 1033
   \<and> (1033 :: 32 word) \<noteq> 1032
   \<and> uart_check_baudrate 16000000 (uart_prescaler False)
        (uart_adjacent 1033 1032 (uart_first_val 16000000 1032 (uart_prescaler False))) = Some 1031
   \<and> \<bar>uint (1031 :: 32 word) - uint (1032 :: 32 word)\<bar>
       = \<bar>uint (1033 :: 32 word) - uint (1032 :: 32 word)\<bar>
   \<and> calc_uart_UBRRn 16000000 1032 False = Some 968
   \<and> (968 :: 16 word) \<noteq> uart_first_val 16000000 1032 (uart_prescaler False)"
proof -
  have h1: "(1032 :: 32 word) \<noteq> 0"
    by simp
  have h2: "uart_first_val 16000000 1032 (uart_prescaler False) \<le> 4095"
    by code_simp
  have h3: "uart_check_baudrate 16000000 (uart_prescaler False)
        (uart_first_val 16000000 1032 (uart_prescaler False)) = Some 1033"
    by code_simp
  have h4: "(1033 :: 32 word) \<noteq> 1032"
    by simp
  have h5: "uart_check_baudrate 16000000 (uart_prescaler False)
        (uart_adjacent 1033 1032 (uart_first_val 16000000 1032 (uart_prescaler False))) = Some 1031"
    by code_simp
  have h6: "\<bar>uint (1031 :: 32 word) - uint (1032 :: 32 word)\<bar>
       = \<bar>uint (1033 :: 32 word) - uint (1032 :: 32 word)\<bar>"
    by simp
  have h7: "calc_uart_UBRRn 16000000 1032 False = Some 968"
    by code_simp
  have "(968 :: 16 word) \<noteq> uart_first_val 16000000 1032 (uart_prescaler False)"
    using calc_uart_UBRRn_tie [OF h1 h2 h3 h4 h5 h6 h7] by (rule conjunct1)
  then show ?thesis
    using h1 h2 h3 h4 h5 h6 h7 by (simp only: simp_thms)
qed

text \<open>
  C4, evaluated where the code breaks it. At 16 MHz and 921600 baud the first candidate
  0 yields 1000000 baud, 78400 off the target, while the margin is 23040. \<open>abs\<close> takes
  a 16-bit \<open>int\<close>, so the function compares 12864 (the low 16 bits of 78400) with the
  margin and returns the divisor 0 instead of \<open>-1\<close>. Two more inputs, which do not
  depend on the width of \<open>int\<close>: with a clock of 134283264 Hz, 4097 baud and double
  speed the adjacent candidate 4096 is returned, beyond the 12-bit range, because the
  range test precedes the increment; and for the baud rate \<open>2^28\<close> the product
  \<open>baudrate*prescaler\<close> wraps to zero and the function divides by zero.
\<close>

theorem calc_uart_UBRRn_margin_failure:
  "calc_uart_UBRRn 16000000 921600 False = Some 0
   \<and> uart_check_baudrate 16000000 (uart_prescaler False) 0 = Some 1000000
   \<and> (1000000 :: 32 word) - 921600 = 78400
   \<and> UART_ERR_CALC 921600 = 23040
   \<and> abs_int (1000000 - 921600) = Some 12864
   \<and> calc_uart_UBRRn 134283264 4097 True = Some 4096
   \<and> calc_uart_UBRRn 16000000 268435456 False = None"
  by code_simp

section \<open>Invalid arguments\<close>

text \<open>
  C9: \<open>calc_presc_CSbits\<close> returns \<open>-1\<close> when \<open>freq\<close> is zero and when \<open>timer_id\<close> is
  none of \<open>AVR_TIMER0\<close> to \<open>AVR_TIMER5\<close>, and \<open>calc_uart_UBRRn\<close> returns \<open>-1\<close> when
  \<open>baudrate\<close> is zero.
\<close>

theorem invalid_arguments_sentinel:
  "calc_presc_CSbits F_CPU 0 timer_id timer_ticks = Some (- 1, timer_ticks)
   \<and> (timer_id \<notin> {AVR_TIMER0, AVR_TIMER1, AVR_TIMER2, AVR_TIMER3, AVR_TIMER4, AVR_TIMER5}
        \<longrightarrow> calc_presc_CSbits F_CPU freq timer_id timer_ticks = Some (- 1, timer_ticks))
   \<and> calc_uart_UBRRn F_CPU 0 is_U2X_set = Some (- 1)
   \<and> sint (- 1 :: 8 word) = - 1 \<and> sint (- 1 :: 16 word) = - 1"
proof -
  have "calc_presc_CSbits F_CPU freq timer_id timer_ticks = Some (- 1, timer_ticks)"
    if "timer_id \<notin> {AVR_TIMER0, AVR_TIMER1, AVR_TIMER2, AVR_TIMER3, AVR_TIMER4, AVR_TIMER5}"
  proof -
    from that have "timer_switch timer_id = None"
      by (simp add: timer_switch_None_iff)
    then show ?thesis
      by (simp add: calc_presc_CSbits_def)
  qed
  then show ?thesis
    by (simp add: calc_presc_CSbits_def calc_uart_UBRRn_def)
qed

theorem invalid_arguments_sentinel_witness:
  "(6 :: int) \<notin> {AVR_TIMER0, AVR_TIMER1, AVR_TIMER2, AVR_TIMER3, AVR_TIMER4, AVR_TIMER5}
   \<and> calc_presc_CSbits 16000000 1000 6 7 = Some (- 1, 7)"
proof -
  have h: "(6 :: int) \<notin> {AVR_TIMER0, AVR_TIMER1, AVR_TIMER2, AVR_TIMER3, AVR_TIMER4, AVR_TIMER5}"
    by (simp add: AVR_TIMER0_def AVR_TIMER1_def AVR_TIMER2_def AVR_TIMER3_def AVR_TIMER4_def
        AVR_TIMER5_def)
  show ?thesis
    using invalid_arguments_sentinel [of 16000000 6 7 1000] h by simp
qed

section \<open>Properties of the rounding functions\<close>

subsection \<open>The steps of the rounding functions on natural numbers\<close>

lemma unat_8_lt: "unat (a :: 8 word) < 256"
  using unsigned_less [of a, where 'a = nat] by simp

lemma unat_ucast_8_16: "unat (ucast (a :: 8 word) :: 16 word) = unat a"
proof -
  have "unat a < 2 ^ 16" using unat_8_lt [of a] by simp
  then show ?thesis
    by (simp add: unsigned_ucast_eq take_bit_nat_eq_self_iff)
qed

lemma unat_half: "unat ((y :: 8 word) div 2) = unat y div 2"
  by (simp add: unat_div)

lemma temp_add_unat:
  "unat ((ucast (x :: 8 word) :: 16 word) + ucast ((y :: 8 word) div 2)) = unat x + unat y div 2"
proof -
  have "unat x + unat y div 2 < 2 ^ 16"
    using unat_8_lt [of x] unat_8_lt [of y] by simp
  then have "unat ((ucast x :: 16 word) + ucast (y div 2))
             = unat (ucast x :: 16 word) + unat (ucast (y div 2) :: 16 word)"
    by (simp add: unat_add_lem [THEN iffD1] unat_ucast_8_16 unat_half)
  then show ?thesis
    by (simp add: unat_ucast_8_16 unat_half)
qed

lemma temp_floor_unat:
  "unat ((t :: 16 word) - t mod ucast (y :: 8 word)) = unat t - unat t mod unat y"
proof -
  have "unat (t mod ucast y) \<le> unat t"
    by (simp add: unat_mod)
  then have "t mod ucast y \<le> t"
    by (simp add: word_le_nat_alt)
  then show ?thesis
    by (simp add: unat_sub unat_mod unat_ucast_8_16)
qed

lemma div_mult_bound: "(a :: nat) < n \<Longrightarrow> a div b * b < n"
  by (rule le_less_trans [OF div_times_less_eq_dividend])

lemma unat_ucast_16_8: "unat (ucast (t :: 16 word) :: 8 word) = unat t mod 256"
  by (simp add: unsigned_ucast_eq take_bit_eq_mod)

lemma temp_rounded_unat:
  "unat ((ucast (x :: 8 word) :: 16 word) + ucast ((y :: 8 word) div 2)
         - ((ucast x :: 16 word) + ucast (y div 2)) mod ucast y)
   = (unat x + unat y div 2) - (unat x + unat y div 2) mod unat y"
  by (simp only: temp_floor_unat temp_add_unat)

lemma temp_redivide_unat:
  assumes "unat (t :: 16 word) mod unat (y :: 8 word) = 0"
  shows "unat (t div ucast y * ucast y) = unat t"
proof -
  have d: "unat (t div ucast y) = unat t div unat y"
    by (simp add: unat_div unat_ucast_8_16)
  have "unat t div unat y * unat y = unat t"
    using assms by (simp add: mod_eq_0_iff_dvd)
  moreover have "unat t < 2 ^ 16"
    using unsigned_less [of t, where 'a = nat] by simp
  ultimately have "unat (t div ucast y) * unat (ucast y :: 16 word) < 2 ^ LENGTH(16)"
    by (simp add: d unat_ucast_8_16)
  then have "unat (t div ucast y * ucast y) = unat (t div ucast y) * unat (ucast y :: 16 word)"
    by (simp only: unat_mult_lem [THEN iffD1])
  then show ?thesis
    using \<open>unat t div unat y * unat y = unat t\<close> by (simp add: d unat_ucast_8_16)
qed

lemma temp_saturate_unat:
  "unat (ucast ((x :: 8 word) div y) * (ucast (y :: 8 word) :: 16 word)) = unat x div unat y * unat y"
proof -
  have "unat x div unat y * unat y < 256"
    by (rule div_mult_bound [OF unat_8_lt])
  then have "unat (ucast (x div y) :: 16 word) * unat (ucast y :: 16 word) < 2 ^ LENGTH(16)"
    by (simp add: unat_ucast_8_16 unat_div)
  then have "unat (ucast (x div y) * (ucast y :: 16 word))
             = unat (ucast (x div y) :: 16 word) * unat (ucast y :: 16 word)"
    by (simp only: unat_mult_lem [THEN iffD1])
  then show ?thesis
    by (simp add: unat_ucast_8_16 unat_div)
qed

lemma wovf_unat:
  assumes "y \<noteq> 0"
  shows "unat (round_near_mul_wovf x y)
         = ((unat x + unat y div 2) - (unat x + unat y div 2) mod unat y) mod 256"
proof -
  let ?t = "(ucast x :: 16 word) + ucast (y div 2)
            - ((ucast x :: 16 word) + ucast (y div 2)) mod ucast y"
  have t: "unat ?t = (unat x + unat y div 2) - (unat x + unat y div 2) mod unat y"
    by (rule temp_rounded_unat)
  have "unat ?t mod unat y = 0"
    unfolding t by (simp add: minus_mod_eq_mult_div)
  then have r: "unat (?t div ucast y * ucast y) = unat ?t"
    by (rule temp_redivide_unat)
  have "unat (round_near_mul_wovf x y) = unat ?t mod 256"
    using assms r by (simp add: round_near_mul_wovf_def Let_def unat_ucast_16_8)
  then show ?thesis
    by (simp only: t)
qed

lemma wsat_unat:
  assumes "y \<noteq> 0"
  shows "unat (round_near_mul_wsat x y)
         = (if 255 < (unat x + unat y div 2) - (unat x + unat y div 2) mod unat y
            then unat x div unat y * unat y
            else (unat x + unat y div 2) - (unat x + unat y div 2) mod unat y)"
proof -
  let ?t = "(ucast x :: 16 word) + ucast (y div 2)
            - ((ucast x :: 16 word) + ucast (y div 2)) mod ucast y"
  have t: "unat ?t = (unat x + unat y div 2) - (unat x + unat y div 2) mod unat y"
    by (rule temp_rounded_unat)
  have c: "(?t > UINT8_MAX) = (255 < unat ?t)"
    by (simp add: UINT8_MAX_def word_less_nat_alt)
  have s: "unat x div unat y * unat y mod 256 = unat x div unat y * unat y"
    using div_mult_bound [OF unat_8_lt, of x "unat y"] by simp
  show ?thesis
  proof (cases "255 < unat ?t")
    case True
    then have "round_near_mul_wsat x y = ucast (ucast (x div y) * (ucast y :: 16 word))"
      using assms c by (simp add: round_near_mul_wsat_def Let_def)
    then show ?thesis
      using True s by (simp add: unat_ucast_16_8 temp_saturate_unat t)
  next
    case False
    then have "round_near_mul_wsat x y = ucast ?t"
      using assms c by (simp add: round_near_mul_wsat_def Let_def)
    then show ?thesis
      using False by (simp add: unat_ucast_16_8 t)
  qed
qed

subsection \<open>Claims about the rounding functions\<close>

text \<open>
  C8: with a zero divisor both rounding functions return 0, for every \<open>x\<close>.
\<close>

theorem round_near_mul_zero_divisor:
  "round_near_mul_wovf x 0 = 0 \<and> round_near_mul_wsat x 0 = 0"
  by (simp add: round_near_mul_wovf_def round_near_mul_wsat_def)

text \<open>
  C2, evaluated at the documented example. The source comment above
  \<open>round_near_mul_wovf\<close> says "For x=255, y=10, it will wrap result to 0". The half-up
  intermediate is \<open>260 > 255\<close>; dividing and re-multiplying by \<open>y\<close> leaves \<open>260\<close>
  unchanged, and the cast to \<open>uint8_t\<close> gives \<open>260 - 256 = 4\<close>, which is not a
  multiple of 10.
\<close>

theorem round_near_mul_wovf_255_10:
  "(255 + 10 div 2) - (255 + 10 div 2) mod (10 :: nat) = 260
   \<and> round_near_mul_wovf 255 10 = 4
   \<and> unat (round_near_mul_wovf 255 10) mod 10 = 4"
  by (simp add: round_near_mul_wovf_def UINT8_MAX_def)

text \<open>
  C5: for \<open>y > 0\<close>, when the half-up intermediate \<open>(x + y/2) - ((x + y/2) mod y)\<close>
  exceeds 255, \<open>round_near_mul_wsat x y\<close> is \<open>(x / y) * y\<close>, the largest multiple of
  \<open>y\<close> that does not exceed \<open>x\<close>; and \<open>round_near_mul_wsat 255 10 = 250\<close>.
\<close>

theorem round_near_mul_wsat_overflow:
  assumes "y \<noteq> 0"
    and "255 < (unat x + unat y div 2) - (unat x + unat y div 2) mod unat y"
  shows "unat (round_near_mul_wsat x y) = unat x div unat y * unat y
         \<and> unat y dvd unat (round_near_mul_wsat x y)
         \<and> unat (round_near_mul_wsat x y) \<le> unat x
         \<and> (\<forall>m. unat y dvd m \<and> m \<le> unat x \<longrightarrow> m \<le> unat (round_near_mul_wsat x y))
         \<and> round_near_mul_wsat 255 10 = 250"
proof -
  have r: "unat (round_near_mul_wsat x y) = unat x div unat y * unat y"
    using assms by (simp add: wsat_unat)
  have largest: "m \<le> unat x div unat y * unat y" if "unat y dvd m" "m \<le> unat x" for m
  proof -
    from that(1) obtain k where k: "m = unat y * k" ..
    have "0 < unat y" using assms(1) by (simp add: unat_gt_0)
    with that(2) k have "k \<le> unat x div unat y"
      by (simp add: less_eq_div_iff_mult_less_eq mult.commute)
    then show ?thesis
      using k by (simp add: mult.commute)
  qed
  have ex: "round_near_mul_wsat 255 10 = 250"
    by (simp add: round_near_mul_wsat_def UINT8_MAX_def)
  show ?thesis
    using r largest ex by simp
qed

theorem round_near_mul_wsat_overflow_witness:
  "(10 :: 8 word) \<noteq> 0
   \<and> 255 < (unat (255 :: 8 word) + unat (10 :: 8 word) div 2)
             - (unat (255 :: 8 word) + unat (10 :: 8 word) div 2) mod unat (10 :: 8 word)
   \<and> unat (round_near_mul_wsat 255 10) = 250"
  using round_near_mul_wsat_overflow [of 10 255] by simp

text \<open>
  C7: for \<open>y > 0\<close> and \<open>x + y/2 < 256\<close> the two rounding functions agree, and their
  common result is the half-up rounded multiple \<open>((x + y/2) / y) * y\<close>.
\<close>

theorem round_near_mul_no_overflow:
  assumes "y \<noteq> 0"
    and "unat x + unat y div 2 < 256"
  shows "round_near_mul_wovf x y = round_near_mul_wsat x y
         \<and> unat (round_near_mul_wovf x y) = (unat x + unat y div 2) div unat y * unat y
         \<and> unat (round_near_mul_wsat x y) = (unat x + unat y div 2) div unat y * unat y"
proof -
  let ?s = "unat x + unat y div 2"
  have t: "?s - ?s mod unat y = ?s div unat y * unat y"
    by (simp add: minus_mod_eq_div_mult)
  have small: "?s div unat y * unat y < 256"
    by (rule div_mult_bound [OF assms(2)])
  have o: "unat (round_near_mul_wovf x y) = ?s div unat y * unat y"
    using assms(1) small by (simp add: wovf_unat t)
  have s: "unat (round_near_mul_wsat x y) = ?s div unat y * unat y"
    using assms(1) small by (simp add: wsat_unat t)
  have "round_near_mul_wovf x y = round_near_mul_wsat x y"
    using o s by (simp add: word_unat_eq_iff)
  then show ?thesis
    using o s by simp
qed

theorem round_near_mul_no_overflow_witness:
  "(10 :: 8 word) \<noteq> 0
   \<and> unat (17 :: 8 word) + unat (10 :: 8 word) div 2 < 256
   \<and> round_near_mul_wovf 17 10 = round_near_mul_wsat 17 10
   \<and> unat (round_near_mul_wovf 17 10) = 20"
  using round_near_mul_no_overflow [of 10 17] by simp

end
